theory Spec2Isabelle
  imports Main
begin

section \<open>Cron expression parser: the embedding\<close>

text \<open>
  The program is index.ts: \<open>parseField\<close> expands one cron field into its values and
  \<open>parseCronExpression\<close> composes five fields and a command into a report.

  Numbers. Every number the program handles is an integer: the results of
  \<open>parseInt\<close>, the bounds of a field, and sums of those. They are embedded as \<open>int\<close>.
  A JavaScript number is a double, which holds every integer up to \<open>2 ^ 53\<close> in
  magnitude exactly, and on those \<open>+\<close>, \<open>\<le>\<close> and \<open>>\<close> are the integer operations;
  the embedding is the program on that range. Beyond it the program rounds: \<open>parseInt\<close> gives
  the nearest double, a loop counter at \<open>2 ^ 53\<close> no longer advances by one, and a number of
  magnitude \<open>10 ^ 21\<close> or more prints with an exponent. The embedding does none of that, so the
  statements C3, C4, C5 and C9, which give the result of a loop over parsed numbers or the
  text of a number, are made for safe integers (\<open>isSafeInteger\<close> below). \<open>NaN\<close> appears in the program only as the
  failure of \<open>parseInt\<close> and is the value \<open>None\<close>. Negative zero, which \<open>parseInt\<close> gives
  for \<open>-0\<close>, compares, is stored in a set and is printed as zero, and is \<open>0\<close> here.

  Strings. A string is a list of \<open>char\<close>, one per code unit, so the embedding covers
  the strings whose code units are below 256.

  Exceptions. Every \<open>throw new Error(message)\<close> is a result \<open>Inl\<close> carrying the
  message; the constructor records which of the five kinds of failure the throw site
  belongs to. A call that would not return is \<open>None\<close>.
\<close>

subsection \<open>Library functions of the language\<close>

text \<open>White space as \<open>parseInt\<close>, \<open>trim\<close> and the pattern \<open>\s\<close> understand it: TAB, LF, VT,
  FF, CR, SP and NBSP are the white-space and line-terminator code units below 256.\<close>

definition isWhiteSpace :: "char \<Rightarrow> bool" where
  "isWhiteSpace c = (c \<in> set [CHR 0x09, CHR 0x0A, CHR 0x0B, CHR 0x0C, CHR 0x0D, CHR 0x20, CHR 0xA0])"

definition isDigit :: "char \<Rightarrow> bool" where
  "isDigit c = (c \<in> set ''0123456789'')"

definition digitValue :: "char \<Rightarrow> int" where
  "digitValue c = int (of_char c) - 48"

definition digitsValue :: "string \<Rightarrow> int" where
  "digitsValue Z = foldl (\<lambda>a c. 10 * a + digitValue c) 0 Z"

text \<open>\<open>parseInt(string, 10)\<close>: leading white space is skipped, one sign is read, and the
  longest run of decimal digits that follows is the value; whatever comes after the digits
  is ignored. With no digit there the result is \<open>NaN\<close>, here \<open>None\<close>.\<close>

definition parseInt :: "string \<Rightarrow> int option" where
  "parseInt inputString =
     (let S = dropWhile isWhiteSpace inputString;
          sign = (if S \<noteq> [] \<and> hd S = CHR ''-'' then - 1 else 1 :: int);
          S' = (if S \<noteq> [] \<and> (hd S = CHR ''+'' \<or> hd S = CHR ''-'') then tl S else S);
          Z = takeWhile isDigit S'
      in if Z = [] then None else Some (sign * digitsValue Z))"

text \<open>\<open>string.split(separator)\<close> for a separator of one character: the pieces between the
  occurrences, empty pieces kept; a string without the separator is its own single piece.\<close>

function split_str :: "char \<Rightarrow> string \<Rightarrow> string list" where
  "split_str sep s =
     (let piece = takeWhile (\<lambda>c. c \<noteq> sep) s; rest = dropWhile (\<lambda>c. c \<noteq> sep) s
      in if rest = [] then [piece] else piece # split_str sep (tl rest))"
  by pat_completeness auto
termination
proof (relation "measure (\<lambda>(sep, s). length s)")
  show "wf (measure (\<lambda>(sep, s). length s))" by simp
next
  fix sep :: char and s piece rest :: string
  assume "rest = dropWhile (\<lambda>c. c \<noteq> sep) s" and "rest \<noteq> []"
  then have "length (tl rest) < length rest" and "length rest \<le> length s"
    by (simp_all add: length_dropWhile_le)
  then show "((sep, tl rest), (sep, s)) \<in> measure (\<lambda>(sep, s). length s)" by simp
qed

declare split_str.simps [simp del]

text \<open>\<open>string.indexOf(c)\<close>: the index of the first occurrence, \<open>-1\<close> when there is none.\<close>

fun indexOf :: "char \<Rightarrow> string \<Rightarrow> int" where
  "indexOf c [] = - 1"
| "indexOf c (x # xs) =
     (if x = c then 0 else (let i = indexOf c xs in if i < 0 then - 1 else i + 1))"

text \<open>\<open>string.includes(c)\<close>.\<close>

definition includes_str :: "char \<Rightarrow> string \<Rightarrow> bool" where
  "includes_str c s = (c \<in> set s)"

text \<open>\<open>string.trim()\<close>: white space removed at both ends.\<close>

definition trim :: "string \<Rightarrow> string" where
  "trim s = rev (dropWhile isWhiteSpace (rev (dropWhile isWhiteSpace s)))"

text \<open>\<open>string.split(/\s+/)\<close>: the pieces between the maximal runs of white space. The empty
  string gives one empty piece.\<close>

function splitWhitespace :: "string \<Rightarrow> string list" where
  "splitWhitespace s =
     (let piece = takeWhile (\<lambda>c. \<not> isWhiteSpace c) s; rest = dropWhile (\<lambda>c. \<not> isWhiteSpace c) s
      in if rest = [] then [piece] else piece # splitWhitespace (dropWhile isWhiteSpace rest))"
  by pat_completeness auto
termination
proof (relation "measure length")
  show "wf (measure length)" by simp
next
  fix s piece rest :: string
  assume r: "rest = dropWhile (\<lambda>c. \<not> isWhiteSpace c) s" and ne: "rest \<noteq> []"
  from r ne have "isWhiteSpace (hd rest)"
    using hd_dropWhile [of "\<lambda>c. \<not> isWhiteSpace c" s] by simp
  with ne have "dropWhile isWhiteSpace rest = dropWhile isWhiteSpace (tl rest)"
    by (cases rest) simp_all
  then have "length (dropWhile isWhiteSpace rest) \<le> length (tl rest)"
    using length_dropWhile_le [of isWhiteSpace "tl rest"] by simp
  moreover from ne have "length (tl rest) < length rest" by simp
  moreover from r have "length rest \<le> length s" by (simp add: length_dropWhile_le)
  ultimately show "(dropWhile isWhiteSpace rest, s) \<in> measure length" by simp
qed

declare splitWhitespace.simps [simp del]

text \<open>\<open>string.padEnd(n)\<close>: spaces appended up to length \<open>n\<close>; a longer string is unchanged.\<close>

definition padEnd :: "nat \<Rightarrow> string \<Rightarrow> string" where
  "padEnd n s = s @ replicate (n - length s) CHR '' ''"

text \<open>\<open>array.join(separator)\<close>.\<close>

fun join :: "string \<Rightarrow> string list \<Rightarrow> string" where
  "join sep [] = []"
| "join sep [x] = x"
| "join sep (x # y # ys) = x @ sep @ join sep (y # ys)"

text \<open>The decimal text of an integer, as a template literal and \<open>join\<close> print a number.\<close>

fun showNat :: "nat \<Rightarrow> string" where
  "showNat n =
     (if n < 10 then [char_of (48 + n)] else showNat (n div 10) @ [char_of (48 + n mod 10)])"

declare showNat.simps [simp del]

definition showInt :: "int \<Rightarrow> string" where
  "showInt i = (if i < 0 then CHR ''-'' # showNat (nat (- i)) else showNat (nat i))"

text \<open>\<open>Number.isSafeInteger\<close>: the integers of magnitude at most \<open>2 ^ 53 - 1\<close>. A double holds
  each of them exactly, \<open>parseInt\<close> reads a digit run with such a value exactly, the sum of two
  of them is rounded only when it exceeds all of them, and each prints as its plain decimal
  digits. On these the arithmetic of the embedding is the arithmetic of the program.\<close>

definition isSafeInteger :: "int \<Rightarrow> bool" where
  "isSafeInteger n = (- (2 ^ 53 - 1) \<le> n \<and> n \<le> 2 ^ 53 - 1)"

text \<open>\<open>Set.add\<close> on a set of numbers: a set keeps its elements in insertion order and adding
  an element that is present changes nothing.\<close>

definition Set_add :: "int \<Rightarrow> int list \<Rightarrow> int list" where
  "Set_add v vals = (if v \<in> set vals then vals else vals @ [v])"

subsection \<open>Errors\<close>

datatype error =
    InvalidValue string
  | OutOfRange string
  | InvalidRange string
  | InvalidStep string
  | MalformedExpression string

type_synonym 'a result = "(error + 'a) option"

subsection \<open>parseField\<close>

text \<open>The three loops of \<open>parseField\<close>. The stepping loop advances by a step that is only
  known at run time, so it is a partial function: \<open>None\<close> is a loop that never ends.\<close>

partial_function (option) stepLoop ::
  "int \<Rightarrow> int \<Rightarrow> int \<Rightarrow> int \<Rightarrow> int \<Rightarrow> int list \<Rightarrow> int list option" where
  "stepLoop i rangeMax step mn mx vals =
     (if i \<le> rangeMax
      then stepLoop (i + step) rangeMax step mn mx
             (if i \<ge> mn \<and> i \<le> mx then Set_add i vals else vals)
      else Some vals)"

declare stepLoop.simps [code]

function rangeLoop :: "int \<Rightarrow> int \<Rightarrow> int \<Rightarrow> int \<Rightarrow> int list \<Rightarrow> int list" where
  "rangeLoop i end' mn mx vals =
     (if i \<le> end'
      then rangeLoop (i + 1) end' mn mx (if i \<ge> mn \<and> i \<le> mx then Set_add i vals else vals)
      else vals)"
  by pat_completeness auto
termination
  by (relation "measure (\<lambda>(i, end', mn, mx, vals). nat (end' + 1 - i))") auto

declare rangeLoop.simps [simp del]

function wildcardLoop :: "int \<Rightarrow> int \<Rightarrow> int list \<Rightarrow> int list" where
  "wildcardLoop i mx vals =
     (if i \<le> mx then wildcardLoop (i + 1) mx (Set_add i vals) else vals)"
  by pat_completeness auto
termination
  by (relation "measure (\<lambda>(i, mx, vals). nat (mx + 1 - i))") auto

declare wildcardLoop.simps [simp del]

text \<open>The interval a step expression runs over (the assignments to \<open>rangeMin\<close> and
  \<open>rangeMax\<close>): the bounds of the field for \<open>*\<close>, both ends of a range, or a single start
  with the maximum of the field as its end. A destructured element that is missing is
  \<open>undefined\<close>, which \<open>isNaN\<close> takes for \<open>NaN\<close>: the catch-all case.\<close>

definition steppingRange :: "string \<Rightarrow> int \<Rightarrow> int \<Rightarrow> error + int \<times> int" where
  "steppingRange range' mn mx =
     (if range' \<noteq> ''*'' then
        (if includes_str CHR ''-'' range' then
           (case map parseInt (split_str CHR ''-'' range') of
              Some start # Some end' # _ \<Rightarrow> Inr (start, end')
            | _ \<Rightarrow> Inl (InvalidRange (''Invalid range in step expression: '' @ range')))
         else
           (case parseInt range' of
              None \<Rightarrow> Inl (InvalidValue (''Invalid value in step expression: '' @ range'))
            | Some rangeMin \<Rightarrow> Inr (rangeMin, mx)))
      else Inr (mn, mx))"

text \<open>The body of the loop over the comma-separated parts: one part is expanded into the
  set \<open>vals\<close> collected so far. The step string is the second piece of the split at \<open>/\<close>;
  were it missing, \<open>parseInt(undefined)\<close> would be \<open>NaN\<close>.\<close>

definition parsePart :: "string \<Rightarrow> int \<Rightarrow> int \<Rightarrow> int list \<Rightarrow> int list result" where
  "parsePart part mn mx vals =
     (if includes_str CHR ''/'' part then
        (case split_str CHR ''/'' part of
           range' # stepStr # _ \<Rightarrow>
             (case parseInt stepStr of
                None \<Rightarrow> Some (Inl (InvalidStep (''Invalid step value: '' @ stepStr)))
              | Some step \<Rightarrow>
                  if step \<le> 0 then Some (Inl (InvalidStep (''Invalid step value: '' @ stepStr)))
                  else
                    (case steppingRange range' mn mx of
                       Inl e \<Rightarrow> Some (Inl e)
                     | Inr (rangeMin, rangeMax) \<Rightarrow>
                         map_option Inr (stepLoop rangeMin rangeMax step mn mx vals)))
         | _ \<Rightarrow> Some (Inl (InvalidStep ''Invalid step value: undefined'')))
      else if includes_str CHR ''-'' part \<and> indexOf CHR ''-'' part > 0 then
        (case map parseInt (split_str CHR ''-'' part) of
           Some start # Some end' # _ \<Rightarrow>
             if start > end'
             then Some (Inl (InvalidRange
                    (''Invalid range: start ('' @ showInt start @ '') > end ('' @ showInt end' @ '')'')))
             else Some (Inr (rangeLoop start end' mn mx vals))
         | _ \<Rightarrow> Some (Inl (InvalidRange (''Invalid range: '' @ part))))
      else if part = ''*'' then Some (Inr (wildcardLoop mn mx vals))
      else
        (case parseInt part of
           None \<Rightarrow> Some (Inl (InvalidValue (''Invalid value: '' @ part)))
         | Some v \<Rightarrow>
             if v \<ge> mn \<and> v \<le> mx then Some (Inr (Set_add v vals))
             else Some (Inl (OutOfRange
                    (''Value '' @ showInt v @ '' out of range ['' @ showInt mn @ ''-'' @ showInt mx @ '']'')))))"

text \<open>The loop over the parts: the first part that throws ends it.\<close>

fun parseParts :: "string list \<Rightarrow> int \<Rightarrow> int \<Rightarrow> int list \<Rightarrow> int list result" where
  "parseParts [] mn mx vals = Some (Inr vals)"
| "parseParts (part # parts) mn mx vals =
     (case parsePart part mn mx vals of
        Some (Inr vals') \<Rightarrow> parseParts parts mn mx vals'
      | r \<Rightarrow> r)"

text \<open>\<open>parseField\<close>: the parts are expanded into one set, which is returned sorted by the
  numeric comparator.\<close>

definition parseField :: "string \<Rightarrow> int \<Rightarrow> int \<Rightarrow> int list result" where
  "parseField expression mn mx =
     (case parseParts (split_str CHR '','' expression) mn mx [] of
        Some (Inr vals) \<Rightarrow> Some (Inr (sort vals))
      | r \<Rightarrow> r)"

subsection \<open>parseCronExpression\<close>

record FieldConfig =
  name :: string
  min_f :: int
  max_f :: int

definition FIELD_CONFIGS :: "FieldConfig list" where
  "FIELD_CONFIGS =
     [\<lparr>name = ''minute'', min_f = 0, max_f = 59\<rparr>,
      \<lparr>name = ''hour'', min_f = 0, max_f = 23\<rparr>,
      \<lparr>name = ''day of month'', min_f = 1, max_f = 31\<rparr>,
      \<lparr>name = ''month'', min_f = 1, max_f = 12\<rparr>,
      \<lparr>name = ''day of week'', min_f = 0, max_f = 6\<rparr>]"

text \<open>The \<open>forEach\<close> over the five time fields: field number \<open>index\<close> is expanded with the
  bounds of \<open>FIELD_CONFIGS[index]\<close> and its line is pushed on \<open>output\<close>. The time fields are
  the first five tokens and the table has five entries, so pairing the two lists is the
  indexing.\<close>

fun forEachField :: "(string \<times> FieldConfig) list \<Rightarrow> string list \<Rightarrow> string list result" where
  "forEachField [] output = Some (Inr output)"
| "forEachField ((field, config) # rest) output =
     (case parseField field (min_f config) (max_f config) of
        Some (Inr vals) \<Rightarrow>
          forEachField rest
            (output @ [padEnd 14 (name config) @ join '' '' (map showInt vals)])
      | Some (Inl e) \<Rightarrow> Some (Inl e)
      | None \<Rightarrow> None)"

definition parseCronExpression :: "string \<Rightarrow> string result" where
  "parseCronExpression cronExpression =
     (let parts = splitWhitespace (trim cronExpression) in
      if length parts < 6 then
        Some (Inl (MalformedExpression
          (''Invalid cron expression. Expected at least 6 fields, got ''
             @ showInt (int (length parts)) @ ''. ''
             @ ''Format: <minute> <hour> <day of month> <month> <day of week> <command>'')))
      else
        (let timeFields = take 5 parts;
             command = join '' '' (drop 5 parts)
         in case forEachField (zip timeFields FIELD_CONFIGS) [] of
              Some (Inr output) \<Rightarrow>
                Some (Inr (join [CHR 0x0A] (output @ [padEnd 14 ''command'' @ command])))
            | Some (Inl e) \<Rightarrow> Some (Inl e)
            | None \<Rightarrow> None))"

subsection \<open>The invariant of the collected values\<close>

text \<open>The values collected so far are pairwise different and lie within the bounds of the
  field.\<close>

definition inBounds :: "int \<Rightarrow> int \<Rightarrow> int list \<Rightarrow> bool" where
  "inBounds mn mx vals = (distinct vals \<and> list_all (\<lambda>x. mn \<le> x \<and> x \<le> mx) vals)"


section \<open>Properties of the loops\<close>

lemma set_Set_add [simp]: "set (Set_add v vals) = insert v (set vals)"
  by (auto simp: Set_add_def)

lemma distinct_Set_add [simp]: "distinct (Set_add v vals) = distinct vals"
  by (simp add: Set_add_def)

lemma set_rangeLoop:
  "set (rangeLoop i e mn mx vals) = set vals \<union> {x. i \<le> x \<and> x \<le> e \<and> mn \<le> x \<and> x \<le> mx}"
proof (induction i e mn mx vals rule: rangeLoop.induct)
  case (1 i e mn mx vals)
  show ?case
  proof (cases "i \<le> e")
    case True
    have "{x. i \<le> x \<and> x \<le> e \<and> mn \<le> x \<and> x \<le> mx}
        = (if mn \<le> i \<and> i \<le> mx then {i} else {}) \<union> {x. i + 1 \<le> x \<and> x \<le> e \<and> mn \<le> x \<and> x \<le> mx}"
      using True by (auto simp: order_le_less)
    with True "1.IH" show ?thesis
      by (subst rangeLoop.simps) auto
  next
    case False
    then show ?thesis by (subst rangeLoop.simps) auto
  qed
qed

lemma distinct_rangeLoop:
  "distinct vals \<Longrightarrow> distinct (rangeLoop i e mn mx vals)"
proof (induction i e mn mx vals rule: rangeLoop.induct)
  case (1 i e mn mx vals)
  then show ?case by (subst rangeLoop.simps) simp
qed

lemma set_wildcardLoop:
  "set (wildcardLoop i mx vals) = set vals \<union> {i..mx}"
proof (induction i mx vals rule: wildcardLoop.induct)
  case (1 i mx vals)
  show ?case
  proof (cases "i \<le> mx")
    case True
    have "{i..mx} = insert i {i + 1..mx}" using True by auto
    with True "1.IH" show ?thesis by (subst wildcardLoop.simps) auto
  next
    case False
    then show ?thesis by (subst wildcardLoop.simps) auto
  qed
qed

lemma distinct_wildcardLoop:
  "distinct vals \<Longrightarrow> distinct (wildcardLoop i mx vals)"
proof (induction i mx vals rule: wildcardLoop.induct)
  case (1 i mx vals)
  then show ?case by (subst wildcardLoop.simps) simp
qed


lemma stepped_unfold:
  assumes "0 < (step::int)" "i \<le> rangeMax"
  shows "{x. i \<le> x \<and> x \<le> rangeMax \<and> step dvd (x - i)}
       = insert i {x. i + step \<le> x \<and> x \<le> rangeMax \<and> step dvd (x - (i + step))}"
proof -
  have "x = i \<or> i + step \<le> x" if "i \<le> x" "step dvd (x - i)" for x
  proof (cases "x = i")
    case False
    with that have "0 < x - i" by simp
    with that(2) have "step \<le> x - i" by (rule zdvd_imp_le)
    then show ?thesis by simp
  qed simp
  moreover have "step dvd (x - (i + step)) \<longleftrightarrow> step dvd (x - i)" for x
  proof -
    have "x - i = (x - (i + step)) + step" by simp
    then show ?thesis by (metis dvd_add_triv_right_iff)
  qed
  ultimately show ?thesis using assms by auto
qed

lemma stepLoop_returns:
  assumes "0 < step"
  shows "\<exists>vals'. stepLoop i rangeMax step mn mx vals = Some vals'
           \<and> set vals' = set vals \<union> {x. i \<le> x \<and> x \<le> rangeMax \<and> step dvd (x - i) \<and> mn \<le> x \<and> x \<le> mx}
           \<and> (distinct vals \<longrightarrow> distinct vals')"
proof (induction "nat (rangeMax + 1 - i)" arbitrary: i vals rule: less_induct)
  case less
  show ?case
  proof (cases "i \<le> rangeMax")
    case True
    let ?v = "if i \<ge> mn \<and> i \<le> mx then Set_add i vals else vals"
    from True assms have "nat (rangeMax + 1 - (i + step)) < nat (rangeMax + 1 - i)" by simp
    from less [OF this, of ?v] obtain vals' where
      r: "stepLoop (i + step) rangeMax step mn mx ?v = Some vals'"
      and s: "set vals' = set ?v \<union>
               {x. i + step \<le> x \<and> x \<le> rangeMax \<and> step dvd (x - (i + step)) \<and> mn \<le> x \<and> x \<le> mx}"
      and d: "distinct ?v \<longrightarrow> distinct vals'" by blast
    from True r have "stepLoop i rangeMax step mn mx vals = Some vals'"
      by (subst stepLoop.simps) simp
    moreover have "set vals' = set vals \<union>
        {x. i \<le> x \<and> x \<le> rangeMax \<and> step dvd (x - i) \<and> mn \<le> x \<and> x \<le> mx}"
      using s stepped_unfold [OF assms True] by auto
    moreover from d have "distinct vals \<longrightarrow> distinct vals'" by simp
    ultimately show ?thesis by blast
  next
    case False
    then have "stepLoop i rangeMax step mn mx vals = Some vals"
      by (subst stepLoop.simps) simp
    with False show ?thesis by auto
  qed
qed

lemma inBounds_Set_add:
  "mn \<le> v \<Longrightarrow> v \<le> mx \<Longrightarrow> inBounds mn mx vals \<Longrightarrow> inBounds mn mx (Set_add v vals)"
  by (simp add: inBounds_def list_all_iff)

lemma inBounds_rangeLoop:
  "inBounds mn mx vals \<Longrightarrow> inBounds mn mx (rangeLoop i e mn mx vals)"
  by (auto simp: inBounds_def list_all_iff set_rangeLoop distinct_rangeLoop)

lemma inBounds_wildcardLoop:
  "inBounds mn mx vals \<Longrightarrow> inBounds mn mx (wildcardLoop mn mx vals)"
  by (auto simp: inBounds_def list_all_iff set_wildcardLoop distinct_wildcardLoop)

lemma inBounds_stepLoop:
  assumes "\<not> step \<le> 0" "stepLoop i rangeMax step mn mx vals = Some vals'" "inBounds mn mx vals"
  shows "inBounds mn mx vals'"
proof -
  from assms(1) have "0 < step" by simp
  from stepLoop_returns [OF this, of i rangeMax mn mx vals] assms(2,3) show ?thesis
    by (auto simp: inBounds_def list_all_iff)
qed

lemma parsePart_inBounds:
  assumes "parsePart part mn mx vals = Some (Inr vals')" "inBounds mn mx vals"
  shows "inBounds mn mx vals'"
  using assms
  by (auto simp: parsePart_def inBounds_Set_add inBounds_rangeLoop inBounds_wildcardLoop
      split: if_splits list.splits option.splits sum.splits dest: inBounds_stepLoop)

lemma parseParts_inBounds:
  "parseParts parts mn mx vals = Some (Inr vals') \<Longrightarrow> inBounds mn mx vals \<Longrightarrow> inBounds mn mx vals'"
proof (induction parts arbitrary: vals)
  case Nil
  then show ?case by simp
next
  case (Cons part parts)
  from Cons.prems(1) obtain v where p: "parsePart part mn mx vals = Some (Inr v)"
    and r: "parseParts parts mn mx v = Some (Inr vals')"
    by (auto split: option.splits sum.splits)
  from p Cons.prems(2) have "inBounds mn mx v" by (rule parsePart_inBounds)
  with r show ?case by (rule Cons.IH)
qed


section \<open>Splitting, the branches of a part, and termination\<close>

lemma split_str_without_separator:
  "\<not> includes_str sep s \<Longrightarrow> split_str sep s = [s]"
  by (subst split_str.simps) (simp add: includes_str_def Let_def)

lemma split_str_with_separator:
  assumes "includes_str sep s"
  shows "\<exists>a b rest. split_str sep s = a # b # rest"
proof -
  from assms have ne: "dropWhile (\<lambda>c. c \<noteq> sep) s \<noteq> []"
    by (auto simp: includes_str_def dropWhile_eq_Nil_conv)
  have "\<exists>b rest. split_str sep t = b # rest" for t
    by (subst split_str.simps) (simp add: Let_def)
  then obtain b rest where "split_str sep (tl (dropWhile (\<lambda>c. c \<noteq> sep) s)) = b # rest"
    by blast
  with ne show ?thesis
    by (subst split_str.simps) (simp add: Let_def)
qed

lemma parseField_single_part:
  assumes "\<not> includes_str CHR '','' part"
  shows "parseField part mn mx =
     (case parsePart part mn mx [] of Some (Inr vals) \<Rightarrow> Some (Inr (sort vals)) | r \<Rightarrow> r)"
  by (simp add: parseField_def split_str_without_separator [OF assms]
      split: option.splits sum.splits)

lemma parsePart_step_form:
  assumes "includes_str CHR ''/'' part" "split_str CHR ''/'' part = range' # stepStr # rest"
  shows "parsePart part mn mx vals =
     (case parseInt stepStr of
        None \<Rightarrow> Some (Inl (InvalidStep (''Invalid step value: '' @ stepStr)))
      | Some step \<Rightarrow>
          if step \<le> 0 then Some (Inl (InvalidStep (''Invalid step value: '' @ stepStr)))
          else
            (case steppingRange range' mn mx of
               Inl e \<Rightarrow> Some (Inl e)
             | Inr (rangeMin, rangeMax) \<Rightarrow>
                 map_option Inr (stepLoop rangeMin rangeMax step mn mx vals)))"
  using assms by (simp add: parsePart_def)

lemma parsePart_range_form:
  assumes "\<not> includes_str CHR ''/'' part" "includes_str CHR ''-'' part" "indexOf CHR ''-'' part > 0"
  shows "parsePart part mn mx vals =
     (case map parseInt (split_str CHR ''-'' part) of
        Some start # Some end' # _ \<Rightarrow>
          if start > end'
          then Some (Inl (InvalidRange
                 (''Invalid range: start ('' @ showInt start @ '') > end ('' @ showInt end' @ '')'')))
          else Some (Inr (rangeLoop start end' mn mx vals))
      | _ \<Rightarrow> Some (Inl (InvalidRange (''Invalid range: '' @ part))))"
  using assms by (simp add: parsePart_def)

lemma parsePart_single_value:
  assumes "\<not> includes_str CHR ''/'' part"
    and "\<not> (includes_str CHR ''-'' part \<and> indexOf CHR ''-'' part > 0)" "part \<noteq> ''*''"
  shows "parsePart part mn mx vals =
     (case parseInt part of
        None \<Rightarrow> Some (Inl (InvalidValue (''Invalid value: '' @ part)))
      | Some v \<Rightarrow>
          if v \<ge> mn \<and> v \<le> mx then Some (Inr (Set_add v vals))
          else Some (Inl (OutOfRange
                 (''Value '' @ showInt v @ '' out of range ['' @ showInt mn @ ''-'' @ showInt mx @ '']''))))"
  using assms by (cases "includes_str CHR ''-'' part") (simp_all add: parsePart_def)

lemma stepLoop_total:
  assumes "\<not> step \<le> 0"
  shows "\<exists>vals'. stepLoop i rangeMax step mn mx vals = Some vals'"
proof -
  from assms have "0 < step" by simp
  from stepLoop_returns [OF this, of i rangeMax mn mx vals] show ?thesis by auto
qed

lemma parsePart_returns: "parsePart part mn mx vals \<noteq> None"
proof (cases "includes_str CHR ''/'' part")
  case True
  then obtain range' stepStr rest where "split_str CHR ''/'' part = range' # stepStr # rest"
    using split_str_with_separator by blast
  from parsePart_step_form [OF True this] show ?thesis
    by (simp add: stepLoop_total split: option.split sum.split prod.split)
next
  case slash: False
  show ?thesis
  proof (cases "includes_str CHR ''-'' part \<and> indexOf CHR ''-'' part > 0")
    case True
    with slash have "parsePart part mn mx vals =
     (case map parseInt (split_str CHR ''-'' part) of
        Some start # Some end' # _ \<Rightarrow>
          if start > end'
          then Some (Inl (InvalidRange
                 (''Invalid range: start ('' @ showInt start @ '') > end ('' @ showInt end' @ '')'')))
          else Some (Inr (rangeLoop start end' mn mx vals))
      | _ \<Rightarrow> Some (Inl (InvalidRange (''Invalid range: '' @ part))))"
      by (simp add: parsePart_range_form)
    then show ?thesis by (simp split: list.split option.split)
  next
    case False
    show ?thesis
    proof (cases "part = ''*''")
      case True
      with slash False show ?thesis by (simp add: parsePart_def)
    next
      case star: False
      from parsePart_single_value [OF slash False star] show ?thesis
        by (simp split: option.split)
    qed
  qed
qed

lemma parseParts_returns: "parseParts parts mn mx vals \<noteq> None"
  by (induction parts arbitrary: vals) (auto simp: parsePart_returns split: option.splits sum.splits)

lemma parseField_returns: "parseField expression mn mx \<noteq> None"
  using parseParts_returns [of "split_str CHR '','' expression" mn mx "[]"]
  by (auto simp: parseField_def split: option.splits sum.splits)

lemma forEachField_returns: "forEachField fs out \<noteq> None"
  by (induction fs out rule: forEachField.induct)
     (auto simp: parseField_returns split: option.splits sum.splits)

lemma parseCronExpression_returns: "parseCronExpression cronExpression \<noteq> None"
  by (simp add: parseCronExpression_def Let_def forEachField_returns split: option.split sum.split)

text \<open>A list of distinct values, sorted, is the filtered interval with the same elements.\<close>

lemma sort_eq_filter_upto:
  assumes "distinct vals" "set vals = {x. a \<le> x \<and> x \<le> b \<and> P x}"
  shows "sort vals = filter P [a..b]"
proof (rule sorted_distinct_set_unique)
  show "sorted (sort vals)" by simp
  show "distinct (sort vals)" using assms(1) by simp
  show "sorted (filter P [a..b])" by (simp add: sorted_wrt_filter)
  show "distinct (filter P [a..b])" by simp
  show "set (sort vals) = set (filter P [a..b])" using assms(2) by auto
qed

section \<open>What a part of each form gives\<close>

lemma parsePart_range_ok:
  assumes "\<not> includes_str CHR ''/'' part" "includes_str CHR ''-'' part" "indexOf CHR ''-'' part > 0"
    and "map parseInt (split_str CHR ''-'' part) = Some start # Some end' # rest" "start \<le> end'"
  shows "parsePart part mn mx vals = Some (Inr (rangeLoop start end' mn mx vals))"
  using assms(4,5) by (simp add: parsePart_range_form [OF assms(1-3)])

lemma parsePart_step_ok:
  assumes "includes_str CHR ''/'' part" "split_str CHR ''/'' part = range' # stepStr # rest"
    and "parseInt stepStr = Some step" "0 < step"
    and "steppingRange range' mn mx = Inr (rangeMin, rangeMax)"
  shows "\<exists>vals'. parsePart part mn mx vals = Some (Inr vals')
           \<and> set vals' = set vals \<union>
                {x. rangeMin \<le> x \<and> x \<le> rangeMax \<and> step dvd (x - rangeMin) \<and> mn \<le> x \<and> x \<le> mx}
           \<and> (distinct vals \<longrightarrow> distinct vals')"
proof -
  from stepLoop_returns [OF assms(4), of rangeMin rangeMax mn mx vals] obtain vals' where
    "stepLoop rangeMin rangeMax step mn mx vals = Some vals'"
    "set vals' = set vals \<union>
       {x. rangeMin \<le> x \<and> x \<le> rangeMax \<and> step dvd (x - rangeMin) \<and> mn \<le> x \<and> x \<le> mx}"
    "distinct vals \<longrightarrow> distinct vals'" by blast
  with assms(3-5) show ?thesis
    by (simp add: parsePart_step_form [OF assms(1,2)])
qed

lemma parseField_error:
  assumes "\<not> includes_str CHR '','' part" "parsePart part mn mx [] = Some (Inl e)"
  shows "parseField part mn mx = Some (Inl e)"
  using assms(2) by (simp add: parseField_single_part [OF assms(1)])

lemma parseField_sorted:
  assumes "\<not> includes_str CHR '','' part" "parsePart part mn mx [] = Some (Inr vals)"
  shows "parseField part mn mx = Some (Inr (sort vals))"
  using assms(2) by (simp add: parseField_single_part [OF assms(1)])

lemma steppingRange_not_InvalidStep: "steppingRange range' mn mx \<noteq> Inl (InvalidStep m)"
  by (simp add: steppingRange_def split: list.split option.split)

lemma parsePart_step_valid_not_InvalidStep:
  assumes "includes_str CHR ''/'' part" "split_str CHR ''/'' part = range' # stepStr # rest"
    and "parseInt stepStr = Some step" "0 < step"
  shows "parsePart part mn mx vals \<noteq> Some (Inl (InvalidStep m))"
proof (cases "steppingRange range' mn mx")
  case (Inl e)
  with steppingRange_not_InvalidStep [of range' mn mx m] have "e \<noteq> InvalidStep m" by auto
  with Inl assms(3,4) show ?thesis by (simp add: parsePart_step_form [OF assms(1,2)])
next
  case (Inr r)
  with assms(3,4) show ?thesis
    by (cases r) (auto simp: parsePart_step_form [OF assms(1,2)])
qed

lemma parsePart_step_invalid:
  assumes "includes_str CHR ''/'' part" "split_str CHR ''/'' part = range' # stepStr # rest"
    and "parseInt stepStr = None \<or> (\<exists>step. parseInt stepStr = Some step \<and> step \<le> 0)"
  shows "parsePart part mn mx vals = Some (Inl (InvalidStep (''Invalid step value: '' @ stepStr)))"
  using assms(3) by (auto simp: parsePart_step_form [OF assms(1,2)])

lemma indexOf_zero: "indexOf c s = 0 \<longleftrightarrow> s \<noteq> [] \<and> hd s = c"
  by (cases s) (auto simp: Let_def)





section \<open>The values of a field\<close>

text \<open>
  C1. For every expression and every pair of bounds, when \<open>parseField\<close> returns a
  sequence, every element of it lies within the bounds and the sequence is strictly
  increasing, so that it has no duplicates.
\<close>

theorem parseField_values_in_bounds_strictly_increasing:
  assumes "parseField expression mn mx = Some (Inr vals)"
  shows "(\<forall>x \<in> set vals. mn \<le> x \<and> x \<le> mx) \<and> sorted_wrt (<) vals"
proof -
  from assms obtain v where p: "parseParts (split_str CHR '','' expression) mn mx [] = Some (Inr v)"
    and s: "vals = sort v"
    by (auto simp: parseField_def split: option.splits sum.splits)
  have "inBounds mn mx []" by (simp add: inBounds_def)
  with p have "inBounds mn mx v" by (rule parseParts_inBounds)
  with s show ?thesis by (auto simp: inBounds_def list_all_iff strict_sorted_iff)
qed

theorem parseField_values_in_bounds_strictly_increasing_witness:
  "parseField ''1-5,10,*/20'' 0 59 = Some (Inr [0, 1, 2, 3, 4, 5, 10, 20, 40])
   \<and> list_all (\<lambda>x. 0 \<le> x \<and> x \<le> 59) [0, 1, 2, 3, 4, 5, 10, 20, 40 :: int]
   \<and> sorted_wrt (<) [0, 1, 2, 3, 4, 5, 10, 20, 40 :: int]"
proof -
  have h: "parseField ''1-5,10,*/20'' 0 59 = Some (Inr [0, 1, 2, 3, 4, 5, 10, 20, 40])"
    by code_simp
  from parseField_values_in_bounds_strictly_increasing [OF h] h show ?thesis
    by (simp add: list_all_iff)
qed

section \<open>The report\<close>

text \<open>
  C2. \<open>parseCronExpression\<close> applied to \<open>*/15 0 1,15 * 1-5 /usr/bin/find\<close> returns the six
  lines below joined by newlines: the minute line, the hour line, the day-of-month line, the
  month line, the day-of-week line and the command line. Each label is padded to a column
  of 14 characters.
\<close>

theorem parseCronExpression_example_report:
  "parseCronExpression ''*/15 0 1,15 * 1-5 /usr/bin/find'' =
     Some (Inr (join [CHR 0x0A]
       [''minute        0 15 30 45'',
        ''hour          0'',
        ''day of month  1 15'',
        ''month         1 2 3 4 5 6 7 8 9 10 11 12'',
        ''day of week   1 2 3 4 5'',
        ''command       /usr/bin/find'']))
   \<and> map (\<lambda>c. padEnd 14 (name c)) FIELD_CONFIGS @ [padEnd 14 ''command''] =
       [''minute        '', ''hour          '', ''day of month  '', ''month         '',
        ''day of week   '', ''command       '']
   \<and> list_all (\<lambda>l. length l = 14) (map (\<lambda>c. padEnd 14 (name c)) FIELD_CONFIGS @ [padEnd 14 ''command''])"
  by code_simp

section \<open>The forms of a part\<close>

text \<open>
  C3. Values outside the bounds of the field are treated differently by the forms. A range
  \<open>start-end\<close> with \<open>start \<le> end\<close> and a step expression with a valid step and interval
  never fail because of the bounds: they succeed and add exactly the values of theirs that
  lie within \<open>[min, max]\<close>, the others being dropped; \<open>50-70\<close> on \<open>[0, 59]\<close> gives \<open>50\<close> to
  \<open>59\<close>. A single value outside \<open>[min, max]\<close> fails with \<open>OutOfRange\<close>, and the message
  has the value and both bounds; \<open>60\<close> on \<open>[0, 59]\<close> fails so. The statement is about a part
  expanded into any set \<open>vals\<close>, and about \<open>parseField\<close> on an expression that is that one
  part. The numbers a loop runs over (the ends of the range; the step and the ends of the
  stepping interval) are safe integers, and so are the numbers the message prints.
\<close>

theorem out_of_window_asymmetry:
  "(\<not> includes_str CHR ''/'' p1 \<and> includes_str CHR ''-'' p1 \<and> indexOf CHR ''-'' p1 > 0
      \<and> map parseInt (split_str CHR ''-'' p1) = Some start # Some end' # rest1 \<and> start \<le> end'
      \<and> isSafeInteger start \<and> isSafeInteger end' \<longrightarrow>
      (\<exists>vals'. parsePart p1 mn mx vals = Some (Inr vals')
          \<and> set vals' = set vals \<union> {x. start \<le> x \<and> x \<le> end' \<and> mn \<le> x \<and> x \<le> mx})
      \<and> (\<not> includes_str CHR '','' p1 \<longrightarrow>
           parseField p1 mn mx = Some (Inr (filter (\<lambda>x. mn \<le> x \<and> x \<le> mx) [start..end']))))
   \<and> (includes_str CHR ''/'' p2 \<and> split_str CHR ''/'' p2 = range' # stepStr # rest2
      \<and> parseInt stepStr = Some step \<and> 0 < step
      \<and> steppingRange range' mn mx = Inr (rangeMin, rangeMax)
      \<and> isSafeInteger step \<and> isSafeInteger rangeMin \<and> isSafeInteger rangeMax \<longrightarrow>
      (\<exists>vals'. parsePart p2 mn mx vals = Some (Inr vals')
          \<and> set vals' = set vals \<union>
               {x. rangeMin \<le> x \<and> x \<le> rangeMax \<and> step dvd (x - rangeMin) \<and> mn \<le> x \<and> x \<le> mx})
      \<and> (\<not> includes_str CHR '','' p2 \<longrightarrow>
           parseField p2 mn mx =
             Some (Inr (filter (\<lambda>x. step dvd (x - rangeMin) \<and> mn \<le> x \<and> x \<le> mx) [rangeMin..rangeMax]))))
   \<and> (\<not> includes_str CHR ''/'' p3 \<and> \<not> (includes_str CHR ''-'' p3 \<and> indexOf CHR ''-'' p3 > 0)
      \<and> p3 \<noteq> ''*'' \<and> parseInt p3 = Some v \<and> \<not> (mn \<le> v \<and> v \<le> mx)
      \<and> isSafeInteger v \<and> isSafeInteger mn \<and> isSafeInteger mx \<longrightarrow>
      parsePart p3 mn mx vals =
        Some (Inl (OutOfRange
          (''Value '' @ showInt v @ '' out of range ['' @ showInt mn @ ''-'' @ showInt mx @ '']'')))
      \<and> (\<not> includes_str CHR '','' p3 \<longrightarrow>
           parseField p3 mn mx =
             Some (Inl (OutOfRange
               (''Value '' @ showInt v @ '' out of range ['' @ showInt mn @ ''-'' @ showInt mx @ '']'')))))
   \<and> parseField ''50-70'' 0 59 = Some (Inr [50, 51, 52, 53, 54, 55, 56, 57, 58, 59])
   \<and> parseField ''60'' 0 59 = Some (Inl (OutOfRange ''Value 60 out of range [0-59]''))"
  (is "?range \<and> ?step \<and> ?single \<and> ?ex1 \<and> ?ex2")
proof -
  have range: ?range
  proof (intro impI, elim conjE, intro conjI impI)
    assume a: "\<not> includes_str CHR ''/'' p1" "includes_str CHR ''-'' p1" "indexOf CHR ''-'' p1 > 0"
      "map parseInt (split_str CHR ''-'' p1) = Some start # Some end' # rest1" "start \<le> end'"
    have r: "parsePart p1 mn mx vs = Some (Inr (rangeLoop start end' mn mx vs))" for vs
      using a by (rule parsePart_range_ok)
    then show "\<exists>vals'. parsePart p1 mn mx vals = Some (Inr vals')
          \<and> set vals' = set vals \<union> {x. start \<le> x \<and> x \<le> end' \<and> mn \<le> x \<and> x \<le> mx}"
      by (simp add: set_rangeLoop)
    assume c: "\<not> includes_str CHR '','' p1"
    have "sort (rangeLoop start end' mn mx []) = filter (\<lambda>x. mn \<le> x \<and> x \<le> mx) [start..end']"
      by (rule sort_eq_filter_upto) (auto simp: set_rangeLoop distinct_rangeLoop)
    with parseField_sorted [OF c r]
    show "parseField p1 mn mx = Some (Inr (filter (\<lambda>x. mn \<le> x \<and> x \<le> mx) [start..end']))"
      by simp
  qed
  have step: ?step
  proof (intro impI, elim conjE, intro conjI impI)
    assume a: "includes_str CHR ''/'' p2" "split_str CHR ''/'' p2 = range' # stepStr # rest2"
      "parseInt stepStr = Some step" "0 < step" "steppingRange range' mn mx = Inr (rangeMin, rangeMax)"
    from parsePart_step_ok [OF a, of vals]
    show "\<exists>vals'. parsePart p2 mn mx vals = Some (Inr vals')
          \<and> set vals' = set vals \<union>
               {x. rangeMin \<le> x \<and> x \<le> rangeMax \<and> step dvd (x - rangeMin) \<and> mn \<le> x \<and> x \<le> mx}"
      by blast
    assume c: "\<not> includes_str CHR '','' p2"
    from parsePart_step_ok [OF a, of "[]"] obtain vals' where
      p: "parsePart p2 mn mx [] = Some (Inr vals')"
      and s: "set vals' = {x. rangeMin \<le> x \<and> x \<le> rangeMax \<and> step dvd (x - rangeMin) \<and> mn \<le> x \<and> x \<le> mx}"
      and d: "distinct vals'" by auto
    from d have "sort vals' = filter (\<lambda>x. step dvd (x - rangeMin) \<and> mn \<le> x \<and> x \<le> mx) [rangeMin..rangeMax]"
      by (rule sort_eq_filter_upto) (simp add: s)
    with parseField_sorted [OF c p]
    show "parseField p2 mn mx =
       Some (Inr (filter (\<lambda>x. step dvd (x - rangeMin) \<and> mn \<le> x \<and> x \<le> mx) [rangeMin..rangeMax]))"
      by simp
  qed
  have single: ?single
  proof (intro impI, elim conjE)
    assume a: "\<not> includes_str CHR ''/'' p3" "\<not> (includes_str CHR ''-'' p3 \<and> indexOf CHR ''-'' p3 > 0)"
      "p3 \<noteq> ''*''" and v: "parseInt p3 = Some v" "\<not> (mn \<le> v \<and> v \<le> mx)"
    have r: "parsePart p3 mn mx vs = Some (Inl (OutOfRange
          (''Value '' @ showInt v @ '' out of range ['' @ showInt mn @ ''-'' @ showInt mx @ '']'')))" for vs
      using v by (simp add: parsePart_single_value [OF a])
    then show "parsePart p3 mn mx vals =
        Some (Inl (OutOfRange
          (''Value '' @ showInt v @ '' out of range ['' @ showInt mn @ ''-'' @ showInt mx @ '']'')))
      \<and> (\<not> includes_str CHR '','' p3 \<longrightarrow>
           parseField p3 mn mx =
             Some (Inl (OutOfRange
               (''Value '' @ showInt v @ '' out of range ['' @ showInt mn @ ''-'' @ showInt mx @ '']''))))"
      by (simp add: parseField_error)
  qed
  have ex1: ?ex1 by code_simp
  have ex2: ?ex2 by code_simp
  from range step single ex1 ex2 show ?thesis by blast
qed

theorem out_of_window_asymmetry_witness:
  "parseField ''50-70'' 0 59 = Some (Inr (filter (\<lambda>x. 0 \<le> x \<and> x \<le> 59) [50..70]))
   \<and> parseField ''*/15'' 0 59 =
       Some (Inr (filter (\<lambda>x. 15 dvd (x - 0) \<and> 0 \<le> x \<and> x \<le> 59) [0..59]))
   \<and> parseField ''60'' 0 59 =
       Some (Inl (OutOfRange
         (''Value '' @ showInt 60 @ '' out of range ['' @ showInt 0 @ ''-'' @ showInt 59 @ '']'')))"
proof -
  have h1: "\<not> includes_str CHR ''/'' ''50-70''" "includes_str CHR ''-'' ''50-70''"
    "indexOf CHR ''-'' ''50-70'' > 0" "\<not> includes_str CHR '','' ''50-70''"
    "map parseInt (split_str CHR ''-'' ''50-70'') = Some 50 # Some 70 # []"
    by code_simp+
  have h2: "includes_str CHR ''/'' ''*/15''" "split_str CHR ''/'' ''*/15'' = ''*'' # ''15'' # []"
    "parseInt ''15'' = Some 15" "steppingRange ''*'' 0 59 = Inr (0, 59)"
    "\<not> includes_str CHR '','' ''*/15''"
    by code_simp+
  have h3: "\<not> includes_str CHR ''/'' ''60''" "\<not> includes_str CHR ''-'' ''60''"
    "''60'' \<noteq> ''*''" "parseInt ''60'' = Some 60" "\<not> includes_str CHR '','' ''60''"
    by code_simp+
  have safe: "isSafeInteger 50" "isSafeInteger 70" "isSafeInteger 15" "isSafeInteger 0"
    "isSafeInteger 59" "isSafeInteger 60"
    by (simp_all add: isSafeInteger_def)
  from out_of_window_asymmetry [where ?p1.0 = "''50-70''" and start = 50 and end' = 70
      and ?rest1.0 = "[]" and mn = 0 and mx = 59 and vals = "[]"
      and ?p2.0 = "''*/15''" and range' = "''*''" and stepStr = "''15''" and ?rest2.0 = "[]"
      and step = 15 and rangeMin = 0 and rangeMax = 59 and ?p3.0 = "''60''" and v = 60]
    h1 h2 h3 safe
  show ?thesis by simp
qed

text \<open>
  C4. A part without \<open>/\<close> whose first hyphen is not at index 0 is a range, and its bounds
  are the first two pieces between hyphens. When one of them is not an integer the part
  fails with \<open>InvalidRange\<close>; when both are (safe) integers and the start is greater than the
  end it fails with \<open>InvalidRange\<close> and a message with both values. \<open>5-2\<close> on \<open>[0, 10]\<close> fails
  so.
\<close>

theorem range_form_invalid:
  assumes "\<not> includes_str CHR ''/'' part" and "includes_str CHR ''-'' part"
    and "indexOf CHR ''-'' part > 0"
    and "split_str CHR ''-'' part = startStr # endStr # rest"
  shows "(parseInt startStr = None \<or> parseInt endStr = None \<longrightarrow>
            parsePart part mn mx vals = Some (Inl (InvalidRange (''Invalid range: '' @ part)))
            \<and> (\<not> includes_str CHR '','' part \<longrightarrow>
                 parseField part mn mx = Some (Inl (InvalidRange (''Invalid range: '' @ part)))))
       \<and> (\<forall>start end'. parseInt startStr = Some start \<and> parseInt endStr = Some end' \<and> start > end'
              \<and> isSafeInteger start \<and> isSafeInteger end' \<longrightarrow>
            parsePart part mn mx vals =
              Some (Inl (InvalidRange
                (''Invalid range: start ('' @ showInt start @ '') > end ('' @ showInt end' @ '')'')))
            \<and> (\<not> includes_str CHR '','' part \<longrightarrow>
                 parseField part mn mx =
                   Some (Inl (InvalidRange
                     (''Invalid range: start ('' @ showInt start @ '') > end ('' @ showInt end' @ '')'')))))
       \<and> parseField ''5-2'' 0 10 = Some (Inl (InvalidRange ''Invalid range: start (5) > end (2)''))"
proof (intro conjI allI impI)
  assume n: "parseInt startStr = None \<or> parseInt endStr = None"
  then show p: "parsePart part mn mx vs = Some (Inl (InvalidRange (''Invalid range: '' @ part)))" for vs
    using assms(4) by (auto simp: parsePart_range_form [OF assms(1-3)] split: option.splits)
  assume "\<not> includes_str CHR '','' part"
  then show "parseField part mn mx = Some (Inl (InvalidRange (''Invalid range: '' @ part)))"
    using p by (rule parseField_error)
next
  fix start end'
  assume s: "parseInt startStr = Some start \<and> parseInt endStr = Some end' \<and> start > end'
      \<and> isSafeInteger start \<and> isSafeInteger end'"
  then show p: "parsePart part mn mx vs =
      Some (Inl (InvalidRange
        (''Invalid range: start ('' @ showInt start @ '') > end ('' @ showInt end' @ '')'')))" for vs
    using assms(4) by (simp add: parsePart_range_form [OF assms(1-3)])
  assume "\<not> includes_str CHR '','' part"
  then show "parseField part mn mx =
      Some (Inl (InvalidRange
        (''Invalid range: start ('' @ showInt start @ '') > end ('' @ showInt end' @ '')'')))"
    using p by (rule parseField_error)
next
  show "parseField ''5-2'' 0 10 = Some (Inl (InvalidRange ''Invalid range: start (5) > end (2)''))"
    by code_simp
qed

theorem range_form_invalid_witness:
  "parseField ''a-b'' 0 10 = Some (Inl (InvalidRange (''Invalid range: '' @ ''a-b'')))
   \<and> parseField ''5-2'' 0 10 =
       Some (Inl (InvalidRange (''Invalid range: start ('' @ showInt 5 @ '') > end ('' @ showInt 2 @ '')'')))"
proof -
  have a: "\<not> includes_str CHR ''/'' ''a-b''" "includes_str CHR ''-'' ''a-b''"
    "indexOf CHR ''-'' ''a-b'' > 0" "split_str CHR ''-'' ''a-b'' = ''a'' # ''b'' # []"
    and a': "parseInt ''a'' = None" "\<not> includes_str CHR '','' ''a-b''"
    by code_simp+
  have b: "\<not> includes_str CHR ''/'' ''5-2''" "includes_str CHR ''-'' ''5-2''"
    "indexOf CHR ''-'' ''5-2'' > 0" "split_str CHR ''-'' ''5-2'' = ''5'' # ''2'' # []"
    and b': "parseInt ''5'' = Some 5" "parseInt ''2'' = Some 2" "\<not> includes_str CHR '','' ''5-2''"
    by code_simp+
  have safe: "isSafeInteger 5" "isSafeInteger 2" by (simp_all add: isSafeInteger_def)
  from safe range_form_invalid [OF a, of 0 10 "[]"] range_form_invalid [OF b, of 0 10 "[]"] a' b'
  show ?thesis by simp
qed

text \<open>
  C5. In a step expression \<open>start-end/step\<close> with a valid step, both bounds (safe) integers
  and the start greater than the end, nothing fails: the part succeeds and adds no value, as
  \<open>5-2/1\<close> on \<open>[0, 10]\<close>, while the plain range \<open>5-2\<close> fails with \<open>InvalidRange\<close>.
\<close>

theorem step_form_inverted_range:
  assumes "includes_str CHR ''/'' part" and "split_str CHR ''/'' part = range' # stepStr # rest"
    and "parseInt stepStr = Some step" and "0 < step"
    and "includes_str CHR ''-'' range'"
    and "map parseInt (split_str CHR ''-'' range') = Some start # Some end' # rest'"
    and "start > end'"
    and "isSafeInteger start" and "isSafeInteger end'"
  shows "parsePart part mn mx vals = Some (Inr vals)
       \<and> (\<not> includes_str CHR '','' part \<longrightarrow> parseField part mn mx = Some (Inr []))
       \<and> parseField ''5-2/1'' 0 10 = Some (Inr [])
       \<and> parseField ''5-2'' 0 10 = Some (Inl (InvalidRange ''Invalid range: start (5) > end (2)''))"
proof (intro conjI impI)
  from assms(5) have "range' \<noteq> ''*''" by (auto simp: includes_str_def)
  with assms(5,6) have "steppingRange range' mn mx = Inr (start, end')"
    by (simp add: steppingRange_def)
  moreover from assms(7) have "stepLoop start end' step mn mx vs = Some vs" for vs
    by (subst stepLoop.simps) simp
  ultimately show p: "parsePart part mn mx vs = Some (Inr vs)" for vs
    using assms(3,4) by (simp add: parsePart_step_form [OF assms(1,2)])
  assume c: "\<not> includes_str CHR '','' part"
  from parseField_sorted [OF c p] show "parseField part mn mx = Some (Inr [])" by simp
next
  show "parseField ''5-2/1'' 0 10 = Some (Inr [])" by code_simp
  show "parseField ''5-2'' 0 10 = Some (Inl (InvalidRange ''Invalid range: start (5) > end (2)''))"
    by code_simp
qed

theorem step_form_inverted_range_witness:
  "parsePart ''5-2/1'' 0 10 [7] = Some (Inr [7]) \<and> parseField ''5-2/1'' 0 10 = Some (Inr [])"
proof -
  have h: "includes_str CHR ''/'' ''5-2/1''" "split_str CHR ''/'' ''5-2/1'' = ''5-2'' # ''1'' # []"
    "parseInt ''1'' = Some 1" "0 < (1::int)" "includes_str CHR ''-'' ''5-2''"
    "map parseInt (split_str CHR ''-'' ''5-2'') = Some 5 # Some 2 # []" "(5::int) > 2"
    "isSafeInteger 5" "isSafeInteger 2"
    and c: "\<not> includes_str CHR '','' ''5-2/1''"
    by code_simp+
  from step_form_inverted_range [OF h, of 0 10 "[7]"] c show ?thesis by simp
qed

text \<open>
  C6. A part that contains \<open>/\<close> fails with \<open>InvalidStep\<close> exactly when its step string, the
  second piece between slashes, is not an integer or is an integer that is not positive;
  the message then carries the step string. \<open>*/0\<close>, \<open>*/-5\<close> and \<open>*/abc\<close> on \<open>[0, 59]\<close> fail
  with \<open>InvalidStep\<close>.
\<close>

theorem step_form_invalid_step:
  assumes "includes_str CHR ''/'' part" and "split_str CHR ''/'' part = range' # stepStr # rest"
  shows "((\<exists>m. parsePart part mn mx vals = Some (Inl (InvalidStep m))) \<longleftrightarrow>
            (parseInt stepStr = None \<or> (\<exists>step. parseInt stepStr = Some step \<and> step \<le> 0)))
       \<and> (\<forall>m. parsePart part mn mx vals = Some (Inl (InvalidStep m)) \<longrightarrow>
              m = ''Invalid step value: '' @ stepStr)
       \<and> (\<not> includes_str CHR '','' part \<longrightarrow>
            ((\<exists>m. parseField part mn mx = Some (Inl (InvalidStep m))) \<longleftrightarrow>
               (parseInt stepStr = None \<or> (\<exists>step. parseInt stepStr = Some step \<and> step \<le> 0))))
       \<and> parseField ''*/0'' 0 59 = Some (Inl (InvalidStep ''Invalid step value: 0''))
       \<and> parseField ''*/-5'' 0 59 = Some (Inl (InvalidStep ''Invalid step value: -5''))
       \<and> parseField ''*/abc'' 0 59 = Some (Inl (InvalidStep ''Invalid step value: abc''))"
  (is "?iff \<and> ?msg \<and> ?field \<and> ?ex1 \<and> ?ex2 \<and> ?ex3")
proof -
  let ?bad = "parseInt stepStr = None \<or> (\<exists>step. parseInt stepStr = Some step \<and> step \<le> 0)"
  have bad: "parsePart part mn mx vs = Some (Inl (InvalidStep (''Invalid step value: '' @ stepStr)))"
    if ?bad for vs
    using assms that by (rule parsePart_step_invalid)
  have good: "parsePart part mn mx vs \<noteq> Some (Inl (InvalidStep m))" if "\<not> ?bad" for vs m
  proof -
    from that obtain step where "parseInt stepStr = Some step" "0 < step" by auto
    with assms show ?thesis by (rule parsePart_step_valid_not_InvalidStep)
  qed
  have iff: "(\<exists>m. parsePart part mn mx vs = Some (Inl (InvalidStep m))) \<longleftrightarrow> ?bad" for vs
    using bad [of vs] good [of vs] by blast
  have msg: ?msg
  proof (intro allI impI)
    fix m assume m: "parsePart part mn mx vals = Some (Inl (InvalidStep m))"
    with good [of vals m] have ?bad by blast
    from bad [OF this, of vals] m show "m = ''Invalid step value: '' @ stepStr" by simp
  qed
  have field: ?field
  proof
    assume c: "\<not> includes_str CHR '','' part"
    have "parseField part mn mx = Some (Inl (InvalidStep m)) \<longleftrightarrow>
          parsePart part mn mx [] = Some (Inl (InvalidStep m))" for m
      by (simp add: parseField_single_part [OF c] split: option.split sum.split)
    with iff [of "[]"] show "(\<exists>m. parseField part mn mx = Some (Inl (InvalidStep m))) \<longleftrightarrow> ?bad"
      by simp
  qed
  have ex1: ?ex1 by code_simp
  have ex2: ?ex2 by code_simp
  have ex3: ?ex3 by code_simp
  from iff [of vals] msg field ex1 ex2 ex3 show ?thesis by blast
qed

theorem step_form_invalid_step_witness:
  "(\<exists>m. parseField ''*/0'' 0 59 = Some (Inl (InvalidStep m)))
   \<and> (\<exists>m. parseField ''*/abc'' 0 59 = Some (Inl (InvalidStep m)))
   \<and> (\<nexists>m. parseField ''a-b/15'' 0 59 = Some (Inl (InvalidStep m)))"
proof -
  have a: "includes_str CHR ''/'' ''*/0''" "split_str CHR ''/'' ''*/0'' = ''*'' # ''0'' # []"
    and a': "parseInt ''0'' = Some 0" "\<not> includes_str CHR '','' ''*/0''"
    by code_simp+
  have b: "includes_str CHR ''/'' ''*/abc''" "split_str CHR ''/'' ''*/abc'' = ''*'' # ''abc'' # []"
    and b': "parseInt ''abc'' = None" "\<not> includes_str CHR '','' ''*/abc''"
    by code_simp+
  have c: "includes_str CHR ''/'' ''a-b/15''" "split_str CHR ''/'' ''a-b/15'' = ''a-b'' # ''15'' # []"
    and c': "parseInt ''15'' = Some 15" "\<not> includes_str CHR '','' ''a-b/15''"
    by code_simp+
  from step_form_invalid_step [OF a, of 0 59 "[]"] a'
  have 1: "\<exists>m. parseField ''*/0'' 0 59 = Some (Inl (InvalidStep m))" by simp
  from step_form_invalid_step [OF b, of 0 59 "[]"] b'
  have 2: "\<exists>m. parseField ''*/abc'' 0 59 = Some (Inl (InvalidStep m))" by simp
  from step_form_invalid_step [OF c, of 0 59 "[]"] c'
  have 3: "\<nexists>m. parseField ''a-b/15'' 0 59 = Some (Inl (InvalidStep m))" by simp
  from 1 2 3 show ?thesis by blast
qed



section \<open>Too few tokens\<close>

text \<open>
  C8. Whenever the trimmed input splits at white space into fewer than six tokens,
  \<open>parseCronExpression\<close> fails with \<open>MalformedExpression\<close> and a message that carries the
  number of tokens. The inputs \<open>* * * *\<close> and the empty string fail so. No field is expanded:
  the failure is the same whatever the tokens are, as for \<open>60 abc */0 5-2\<close>, each token of
  which would fail as a field.
\<close>

theorem parseCronExpression_too_few_tokens:
  "(length (splitWhitespace (trim cronExpression)) < 6 \<longrightarrow>
      parseCronExpression cronExpression =
        Some (Inl (MalformedExpression
          (''Invalid cron expression. Expected at least 6 fields, got ''
             @ showInt (int (length (splitWhitespace (trim cronExpression))))
             @ ''. Format: <minute> <hour> <day of month> <month> <day of week> <command>''))))
   \<and> parseCronExpression ''* * * *'' =
        Some (Inl (MalformedExpression
          ''Invalid cron expression. Expected at least 6 fields, got 4. Format: <minute> <hour> <day of month> <month> <day of week> <command>''))
   \<and> parseCronExpression '''' =
        Some (Inl (MalformedExpression
          ''Invalid cron expression. Expected at least 6 fields, got 1. Format: <minute> <hour> <day of month> <month> <day of week> <command>''))
   \<and> parseCronExpression ''60 abc */0 5-2'' =
        Some (Inl (MalformedExpression
          ''Invalid cron expression. Expected at least 6 fields, got 4. Format: <minute> <hour> <day of month> <month> <day of week> <command>''))"
proof (intro conjI impI)
  assume "length (splitWhitespace (trim cronExpression)) < 6"
  then show "parseCronExpression cronExpression =
        Some (Inl (MalformedExpression
          (''Invalid cron expression. Expected at least 6 fields, got ''
             @ showInt (int (length (splitWhitespace (trim cronExpression))))
             @ ''. Format: <minute> <hour> <day of month> <month> <day of week> <command>'')))"
    by (simp add: parseCronExpression_def Let_def)
qed code_simp+

theorem parseCronExpression_too_few_tokens_witness:
  "length (splitWhitespace (trim ''* * * *'')) = 4
   \<and> parseCronExpression ''* * * *'' =
        Some (Inl (MalformedExpression
          ''Invalid cron expression. Expected at least 6 fields, got 4. Format: <minute> <hour> <day of month> <month> <day of week> <command>''))"
proof -
  have h: "length (splitWhitespace (trim ''* * * *'')) = 4" by code_simp
  have s: "showInt 4 = ''4''" by code_simp
  from parseCronExpression_too_few_tokens [of "''* * * *''"] h s show ?thesis by simp
qed

section \<open>A leading hyphen, and lenient integers\<close>

text \<open>
  C9, as stated, says that every part whose hyphen is at index 0 is read as a negative
  integer and fails with \<open>OutOfRange\<close> when the minimum of the field is not negative, and
  not with \<open>InvalidValue\<close>. The part \<open>-0\<close> has its hyphen at index 0, is read as zero, which
  is not below the minimum, and is accepted on \<open>[0, 59]\<close>; the part \<open>-abc\<close> is not read as an integer at all and fails with
  \<open>InvalidValue\<close>.
\<close>

theorem leading_hyphen_counterexample:
  "\<not> includes_str CHR ''/'' ''-0'' \<and> indexOf CHR ''-'' ''-0'' = 0
   \<and> parseInt ''-0'' = Some 0 \<and> parseField ''-0'' 0 59 = Some (Inr [0])
   \<and> \<not> includes_str CHR ''/'' ''-abc'' \<and> indexOf CHR ''-'' ''-abc'' = 0
   \<and> parseInt ''-abc'' = None
   \<and> parseField ''-abc'' 0 59 = Some (Inl (InvalidValue ''Invalid value: -abc''))"
  by code_simp

text \<open>
  C9, amended. A part without \<open>/\<close> whose first hyphen is at index 0 is not classified as a
  range: the single-value branch decides it. With no integer read it fails with
  \<open>InvalidValue\<close>, and an integer within the bounds is added. When it is read as a negative
  integer, it fails with \<open>OutOfRange\<close> for all bounds whose minimum is not negative, and
  neither with \<open>InvalidRange\<close> nor with \<open>InvalidValue\<close>; \<open>-1\<close> on \<open>[0, 59]\<close> fails so. The integer
  read is a safe integer, and so are the bounds where the message prints them.
\<close>

theorem leading_hyphen_single_value:
  assumes "\<not> includes_str CHR ''/'' part" and "indexOf CHR ''-'' part = 0"
  shows "(parseInt part = None \<longrightarrow>
            parsePart part mn mx vals = Some (Inl (InvalidValue (''Invalid value: '' @ part))))
       \<and> (\<forall>v. parseInt part = Some v \<and> isSafeInteger v \<and> mn \<le> v \<and> v \<le> mx \<longrightarrow>
            parsePart part mn mx vals = Some (Inr (Set_add v vals)))
       \<and> (\<forall>v. parseInt part = Some v \<and> v < 0 \<and> 0 \<le> mn
              \<and> isSafeInteger v \<and> isSafeInteger mn \<and> isSafeInteger mx \<longrightarrow>
            parsePart part mn mx vals =
              Some (Inl (OutOfRange
                (''Value '' @ showInt v @ '' out of range ['' @ showInt mn @ ''-'' @ showInt mx @ '']'')))
            \<and> (\<not> includes_str CHR '','' part \<longrightarrow>
                 parseField part mn mx =
                   Some (Inl (OutOfRange
                     (''Value '' @ showInt v @ '' out of range ['' @ showInt mn @ ''-'' @ showInt mx @ '']'')))))
       \<and> parseField ''-1'' 0 59 = Some (Inl (OutOfRange ''Value -1 out of range [0-59]''))"
proof -
  from assms(2) have "\<not> (includes_str CHR ''-'' part \<and> indexOf CHR ''-'' part > 0)" by simp
  moreover from assms(2) have "part \<noteq> ''*''" by (auto simp: indexOf_zero)
  ultimately have branch: "parsePart part mn mx vs =
           (case parseInt part of
              None \<Rightarrow> Some (Inl (InvalidValue (''Invalid value: '' @ part)))
            | Some v \<Rightarrow>
                if v \<ge> mn \<and> v \<le> mx then Some (Inr (Set_add v vs))
                else Some (Inl (OutOfRange
                       (''Value '' @ showInt v @ '' out of range ['' @ showInt mn @ ''-'' @ showInt mx @ '']''))))"
    for vs
    using assms(1) by (rule parsePart_single_value [rotated])
  have none: "parseInt part = None \<longrightarrow>
      parsePart part mn mx vals = Some (Inl (InvalidValue (''Invalid value: '' @ part)))"
    by (simp add: branch)
  have inside: "\<forall>v. parseInt part = Some v \<and> isSafeInteger v \<and> mn \<le> v \<and> v \<le> mx \<longrightarrow>
      parsePart part mn mx vals = Some (Inr (Set_add v vals))"
    by (simp add: branch)
  have neg: "parsePart part mn mx vs =
              Some (Inl (OutOfRange
                (''Value '' @ showInt v @ '' out of range ['' @ showInt mn @ ''-'' @ showInt mx @ '']'')))"
    if "parseInt part = Some v \<and> v < 0 \<and> 0 \<le> mn
          \<and> isSafeInteger v \<and> isSafeInteger mn \<and> isSafeInteger mx" for v vs
    using that by (simp add: branch)
  have "parseField ''-1'' 0 59 = Some (Inl (OutOfRange ''Value -1 out of range [0-59]''))"
    by code_simp
  with none inside neg show ?thesis
    by (auto intro: parseField_error)
qed

theorem leading_hyphen_single_value_witness:
  "parsePart ''-7'' 0 59 [3] =
     Some (Inl (OutOfRange (''Value '' @ showInt (- 7) @ '' out of range ['' @ showInt 0 @ ''-'' @ showInt 59 @ '']'')))
   \<and> parseField ''-7'' 0 59 =
     Some (Inl (OutOfRange (''Value '' @ showInt (- 7) @ '' out of range ['' @ showInt 0 @ ''-'' @ showInt 59 @ '']'')))
   \<and> parsePart ''-0'' 0 59 [3] = Some (Inr (Set_add 0 [3]))
   \<and> parsePart ''-abc'' 0 59 [3] = Some (Inl (InvalidValue (''Invalid value: '' @ ''-abc'')))"
proof -
  have h: "\<not> includes_str CHR ''/'' ''-7''" "indexOf CHR ''-'' ''-7'' = 0"
    and p: "parseInt ''-7'' = Some (- 7)" "\<not> includes_str CHR '','' ''-7''"
    by code_simp+
  have z: "\<not> includes_str CHR ''/'' ''-0''" "indexOf CHR ''-'' ''-0'' = 0"
    and z': "parseInt ''-0'' = Some 0"
    by code_simp+
  have n: "\<not> includes_str CHR ''/'' ''-abc''" "indexOf CHR ''-'' ''-abc'' = 0"
    and n': "parseInt ''-abc'' = None"
    by code_simp+
  have safe: "isSafeInteger (- 7)" "isSafeInteger 0" "isSafeInteger 59"
    by (simp_all add: isSafeInteger_def)
  from leading_hyphen_single_value [OF h, of 0 59 "[3]"] p safe
  have 1: "parsePart ''-7'' 0 59 [3] =
     Some (Inl (OutOfRange (''Value '' @ showInt (- 7) @ '' out of range ['' @ showInt 0 @ ''-'' @ showInt 59 @ '']'')))
   \<and> parseField ''-7'' 0 59 =
     Some (Inl (OutOfRange (''Value '' @ showInt (- 7) @ '' out of range ['' @ showInt 0 @ ''-'' @ showInt 59 @ '']'')))"
    by simp
  from leading_hyphen_single_value [OF z, of 0 59 "[3]"] z' safe
  have 2: "parsePart ''-0'' 0 59 [3] = Some (Inr (Set_add 0 [3]))" by simp
  from leading_hyphen_single_value [OF n, of 0 59 "[3]"] n'
  have 3: "parsePart ''-abc'' 0 59 [3] = Some (Inl (InvalidValue (''Invalid value: '' @ ''-abc'')))"
    by simp
  from 1 2 3 show ?thesis by simp
qed



end
